theory Spec2Isabelle
  imports Complex_Main "HOL-Library.Sublist"
begin

section \<open>Python values used by the Agent Router\<close>

text \<open>
  The router is the FastAPI module \<^verbatim>\<open>.github/workflows/main.py\<close>. A Python \<^verbatim>\<open>str\<close> is a
  sequence of Unicode code points, so it is modelled as a list of natural numbers; an
  Isabelle \<^typ>\<open>char\<close> is only a byte and could not hold the code point U+1F4E1 that the
  webhook handler prints. \<open>lit\<close> turns an ASCII literal of the source into its code points.
\<close>

type_synonym pystr = "nat list"

definition lit :: "string \<Rightarrow> pystr" where
  "lit s = map of_char s"

text \<open>
  The values the handlers build: strings, the two float literals of the voice settings
  (both are dyadic fractions, hence exact as rationals), and dict literals, which keep
  their insertion order.
\<close>

datatype pyval = Str pystr | Float rat | Dict "(pystr \<times> pyval) list"

text \<open>
  A \<^verbatim>\<open>str\<close> may hold lone surrogates, the code points U+D800..U+DFFF (the JSON text
  \<^verbatim>\<open>"\ud800"\<close> decodes to one). They are the code points that \<^verbatim>\<open>s.encode("utf-8")\<close> refuses
  with a \<^verbatim>\<open>UnicodeEncodeError\<close>.
\<close>

definition surrogate :: "nat \<Rightarrow> bool" where
  "surrogate c \<longleftrightarrow> 55296 \<le> c \<and> c \<le> 57343"

definition utf8_char :: "nat \<Rightarrow> bool" where
  "utf8_char c \<longleftrightarrow> \<not> surrogate c"

definition utf8 :: "pystr \<Rightarrow> bool" where
  "utf8 s = list_all utf8_char s"

text \<open>
  \<^verbatim>\<open>json.dumps(v, ensure_ascii=False).encode("utf-8")\<close> succeeds on a value when every string
  in it, key or value, can be encoded.
\<close>

primrec renders :: "pyval \<Rightarrow> bool" where
  "renders (Str s) = utf8 s"
| "renders (Float x) = True"
| "renders (Dict kvs) = list_all (\<lambda>(k, ok). utf8 k \<and> ok) (map (map_prod id renders) kvs)"

text \<open>\<^verbatim>\<open>d.get(k, default)\<close> on a dict with string keys: it never raises.\<close>

definition get :: "(pystr \<times> pystr) list \<Rightarrow> pystr \<Rightarrow> pystr \<Rightarrow> pystr" where
  "get d k dflt = (case map_of d k of Some v \<Rightarrow> v | None \<Rightarrow> dflt)"

text \<open>
  \<^verbatim>\<open>s.replace(old, new)\<close>: scanning from the left, every occurrence of \<open>old\<close> that starts
  at the current position is replaced and skipped, so the occurrences replaced do not
  overlap. For an empty \<open>old\<close>, Python inserts \<open>new\<close> before every character and at the end.
\<close>

fun replace :: "pystr \<Rightarrow> pystr \<Rightarrow> pystr \<Rightarrow> pystr" where
  "replace old new [] = (if old = [] then new else [])"
| "replace old new (c # cs) =
     (if old = [] then new @ c # replace old new cs
      else if prefix old (c # cs) then new @ replace old new (drop (length old) (c # cs))
      else c # replace old new cs)"

text \<open>
  \<^verbatim>\<open>s.strip()\<close> without argument removes leading and trailing whitespace, where whitespace
  is what \<^verbatim>\<open>str.isspace\<close> accepts: the code points U+0009..U+000D, U+001C..U+0020, U+0085,
  U+00A0, U+1680, U+2000..U+200A, U+2028, U+2029, U+202F, U+205F and U+3000.
\<close>

definition isspace :: "nat \<Rightarrow> bool" where
  "isspace c \<longleftrightarrow>
     c \<in> set [9, 10, 11, 12, 13, 28, 29, 30, 31, 32, 133, 160, 5760]
     \<or> (8192 \<le> c \<and> c \<le> 8202)
     \<or> c \<in> set [8232, 8233, 8239, 8287, 12288]"

definition lstrip :: "pystr \<Rightarrow> pystr" where
  "lstrip s = dropWhile isspace s"

definition rstrip :: "pystr \<Rightarrow> pystr" where
  "rstrip s = rev (dropWhile isspace (rev s))"

definition strip :: "pystr \<Rightarrow> pystr" where
  "strip s = rstrip (lstrip s)"

section \<open>Configuration and request models\<close>

definition ELEVENLABS_API_KEY :: pystr where
  "ELEVENLABS_API_KEY = lit ''your-elevenlabs-api-key''"

definition ELEVENLABS_VOICE_ID :: pystr where
  "ELEVENLABS_VOICE_ID = lit ''your-voice-id''"

text \<open>
  The module-level dict \<^verbatim>\<open>planetary_agents\<close>. No statement of the module assigns to it or
  mutates it after its definition, so it is a constant of the model.
\<close>

definition planetary_agents :: "(pystr \<times> pystr) list" where
  "planetary_agents =
     [(lit ''Mercury'', lit ''Push2Repo''),
      (lit ''Mars'', lit ''NotebookLM''),
      (lit ''Saturn'', lit ''NLP2CODE''),
      (lit ''Jupiter'', lit ''CoManDeck''),
      (lit ''Neptune'', lit ''SLAMAR''),
      (lit ''Sedna'', lit ''HeylloGen'')]"

record NLPRequest =
  instruction :: pystr
  agent :: pystr

record AvatarRequest =
  action :: pystr
  agent :: pystr

record TTSRequest =
  "text" :: pystr
  agent :: pystr

text \<open>
  The handler never looks into \<^verbatim>\<open>data\<close>; it only formats it with Python's built-in
  \<^verbatim>\<open>str\<close>. The type of \<^verbatim>\<open>data\<close> is therefore left open, and the formatter is a parameter
  of the webhook handler.
\<close>

record 'd WebhookPayload =
  event :: pystr
  data :: 'd
  agent :: pystr

section \<open>Effects\<close>

text \<open>
  What a handler does besides returning: lines written by \<^verbatim>\<open>print\<close>, and calls of
  \<^verbatim>\<open>requests.post(url, headers=..., json=...)\<close>. Both are recorded in the state of the
  process, in order. Whether a write to \<^verbatim>\<open>sys.stdout\<close> succeeds is a matter of the process,
  not of the module: the state tells, for a line, the exception that writing it raises, if
  any (\<^verbatim>\<open>UnicodeEncodeError\<close> when the encoding of the stream cannot encode the line,
  \<^verbatim>\<open>ValueError\<close> when the stream is closed, \<^verbatim>\<open>OSError\<close> when the write itself fails).
\<close>

record http_post =
  url :: pystr
  headers :: "(pystr \<times> pystr) list"
  json :: pyval

datatype error = RequestException | UnicodeEncodeError | ValueError | OSError

record process =
  stdout :: "pystr list"
  posted :: "http_post list"
  stdout_raises :: "pystr \<Rightarrow> error option"


text \<open>
  An open standard output encoded in UTF-8 (with the error handler \<^verbatim>\<open>strict\<close>): it writes
  every line but those that hold a lone surrogate.
\<close>

definition utf8_stdout :: "pystr \<Rightarrow> error option" where
  "utf8_stdout line = (if utf8 line then None else Some UnicodeEncodeError)"

definition requests_post :: "pystr \<Rightarrow> (pystr \<times> pystr) list \<Rightarrow> pyval \<Rightarrow> process \<Rightarrow> process" where
  "requests_post u hs body p = p\<lparr>posted := posted p @ [\<lparr>url = u, headers = hs, json = body\<rparr>]\<rparr>"

text \<open>
  What the provider's side of \<^verbatim>\<open>requests.post\<close> does is not decided by the router: the call
  either returns a response, of which the handler reads \<^verbatim>\<open>status_code\<close>, or raises a
  \<^verbatim>\<open>requests.exceptions.RequestException\<close> (connection refused, DNS failure, ...). The
  handler has no \<^verbatim>\<open>try\<close>, so the exception leaves it.
\<close>

datatype post_outcome = Response int | Raise error

record JSONResponse =
  content :: pyval
  status_code :: int

text \<open>
  \<^verbatim>\<open>JSONResponse(content=..., status_code=...)\<close> renders its content in the constructor, as
  JSON encoded in UTF-8, and raises \<^verbatim>\<open>UnicodeEncodeError\<close> when a string of the content
  cannot be encoded.
\<close>

definition JSONResponse_init :: "pyval \<Rightarrow> int \<Rightarrow> error + JSONResponse" where
  "JSONResponse_init c code =
     (if renders c then Inr \<lparr>content = c, status_code = code\<rparr> else Inl UnicodeEncodeError)"

section \<open>Routes\<close>

text \<open>
  Every POST handler starts with \<^verbatim>\<open>routed_service = planetary_agents.get(agent, "CygNus")\<close>;
  the specification calls this expression resolveService.
\<close>

definition routed_service :: "pystr \<Rightarrow> pystr" where
  "routed_service name = get planetary_agents name (lit ''CygNus'')"

definition parse_instruction :: "NLPRequest \<Rightarrow> process \<Rightarrow> pyval \<times> process" where
  "parse_instruction request p =
     (let instruction = NLPRequest.instruction request;
          agent = NLPRequest.agent request;
          service = routed_service agent;
          parsed = lit ''['' @ service @ lit ''] ''
                   @ strip (replace (lit ''Animate avatar to'') (lit ''[ACTION]'') instruction)
      in (Dict [(lit ''parsed'', Str parsed), (lit ''agent'', Str agent),
                (lit ''service'', Str service)], p))"


definition generate_tts ::
  "post_outcome \<Rightarrow> TTSRequest \<Rightarrow> process \<Rightarrow> (error + JSONResponse) \<times> process" where
  "generate_tts outcome request p =
     (let agent = TTSRequest.agent request;
          service = routed_service agent;
          u = lit ''https://api.elevenlabs.io/v1/text-to-speech/'' @ ELEVENLABS_VOICE_ID;
          hs = [(lit ''xi-api-key'', ELEVENLABS_API_KEY),
                (lit ''Content-Type'', lit ''application/json'')];
          payload = Dict [(lit ''text'', Str (TTSRequest.text request)),
                          (lit ''voice_settings'',
                             Dict [(lit ''stability'', Float 0.5),
                                   (lit ''similarity_boost'', Float 0.75)])];
          p1 = requests_post u hs payload p
      in case outcome of
           Raise e \<Rightarrow> (Inl e, p1)
         | Response code \<Rightarrow>
             if code = 200
             then (JSONResponse_init (Dict [(lit ''status'', Str (lit ''TTS generated'')),
                                            (lit ''agent'', Str agent),
                                            (lit ''service'', Str service)]) 200, p1)
             else (JSONResponse_init (Dict [(lit ''error'', Str (lit ''TTS failed'')),
                                            (lit ''agent'', Str agent),
                                            (lit ''service'', Str service)]) 500, p1))"


definition list_agents :: "process \<Rightarrow> pyval \<times> process" where
  "list_agents p =
     (Dict [(lit ''planetary_agents'', Dict (map (\<lambda>(k, v). (k, Str v)) planetary_agents))], p)"

text \<open>
  The state of a freshly started process whose standard output is encoded in UTF-8, and
  \<^verbatim>\<open>response[key]\<close> on a returned dict (the keys of every dict literal of the module are
  distinct).
\<close>

definition startup :: process where
  "startup = \<lparr>stdout = [], posted = [], stdout_raises = utf8_stdout\<rparr>"

definition field :: "pystr \<Rightarrow> pyval \<Rightarrow> pyval option" where
  "field key v = (case v of Dict kvs \<Rightarrow> map_of kvs key | _ \<Rightarrow> None)"

section \<open>Service resolution\<close>

lemma planetary_agents_keys:
  "map fst planetary_agents =
     [lit ''Mercury'', lit ''Mars'', lit ''Saturn'', lit ''Jupiter'', lit ''Neptune'', lit ''Sedna'']"
  by (simp add: planetary_agents_def)

lemma routed_service_unknown:
  "name \<notin> set (map fst planetary_agents) \<Longrightarrow> routed_service name = lit ''CygNus''"
proof -
  assume "name \<notin> set (map fst planetary_agents)"
  then have "map_of planetary_agents name = None"
    by (simp add: map_of_eq_None_iff)
  then show ?thesis
    by (simp add: routed_service_def get_def)
qed

lemma routed_service_known:
  "(name, service) \<in> set planetary_agents \<Longrightarrow> routed_service name = service"
proof -
  assume m: "(name, service) \<in> set planetary_agents"
  have "distinct (map fst planetary_agents)"
    by (simp add: planetary_agents_def lit_def)
  with m have "map_of planetary_agents name = Some service"
    by simp
  then show ?thesis
    by (simp add: routed_service_def get_def)
qed

text \<open>
  C1. The service resolution is a total function of the agent string: for each of the six
  keys Mercury, Mars, Saturn, Jupiter, Neptune and Sedna it returns the value configured
  for that key, and for every string that is not a key it returns the fallback CygNus.
  It takes no process state and returns none, so it has no effect.
\<close>

theorem routed_service_total:
  "((name, service) \<in> set planetary_agents \<longrightarrow> routed_service name = service)
   \<and> (name \<notin> set (map fst planetary_agents) \<longrightarrow> routed_service name = lit ''CygNus'')
   \<and> map fst planetary_agents =
       [lit ''Mercury'', lit ''Mars'', lit ''Saturn'', lit ''Jupiter'', lit ''Neptune'',
        lit ''Sedna'']
   \<and> routed_service (lit ''Mercury'') = lit ''Push2Repo''
   \<and> routed_service (lit ''Mars'') = lit ''NotebookLM''
   \<and> routed_service (lit ''Saturn'') = lit ''NLP2CODE''
   \<and> routed_service (lit ''Jupiter'') = lit ''CoManDeck''
   \<and> routed_service (lit ''Neptune'') = lit ''SLAMAR''
   \<and> routed_service (lit ''Sedna'') = lit ''HeylloGen''"
proof -
  have known: "\<And>a s. (a, s) \<in> set planetary_agents \<Longrightarrow> routed_service a = s"
    by (rule routed_service_known)
  have "routed_service (lit ''Mercury'') = lit ''Push2Repo''"
    and "routed_service (lit ''Mars'') = lit ''NotebookLM''"
    and "routed_service (lit ''Saturn'') = lit ''NLP2CODE''"
    and "routed_service (lit ''Jupiter'') = lit ''CoManDeck''"
    and "routed_service (lit ''Neptune'') = lit ''SLAMAR''"
    and "routed_service (lit ''Sedna'') = lit ''HeylloGen''"
    by (rule known, simp add: planetary_agents_def)+
  then show ?thesis
    using routed_service_unknown [of name] routed_service_known [of name service]
      planetary_agents_keys
    by blast
qed

theorem routed_service_total_witness:
  "(lit ''Mars'', lit ''NotebookLM'') \<in> set planetary_agents
   \<and> routed_service (lit ''Mars'') = lit ''NotebookLM''
   \<and> lit ''Pluto'' \<notin> set (map fst planetary_agents)
   \<and> routed_service (lit ''Pluto'') = lit ''CygNus''"
proof -
  have a: "(lit ''Mars'', lit ''NotebookLM'') \<in> set planetary_agents"
    by (simp add: planetary_agents_def)
  have b: "lit ''Pluto'' \<notin> set (map fst planetary_agents)"
    by (simp add: planetary_agents_def lit_def)
  from a b routed_service_total [of "lit ''Mars''" "lit ''NotebookLM''"]
    routed_service_total [of "lit ''Pluto''" "[]"]
  show ?thesis by blast
qed

section \<open>Replacing and stripping\<close>

lemma replace_ws_left:
  assumes "pat \<noteq> []" "\<not> isspace (hd pat)" "\<forall>c\<in>set w. isspace c"
  shows "replace pat rep (w @ s) = w @ replace pat rep s"
  using assms by (induction w) (auto simp: neq_Nil_conv)

lemma prefix_ws_right:
  assumes "pat \<noteq> []" "\<not> isspace (last pat)" "\<forall>c\<in>set w. isspace c"
  shows "prefix pat (s @ w) \<longleftrightarrow> prefix pat s"
proof
  assume "prefix pat (s @ w)"
  then consider "prefix pat s" | us where "pat = s @ us" "prefix us w"
    by (auto simp: prefix_append)
  then show "prefix pat s"
  proof cases
    case 1
    then show ?thesis .
  next
    case 2
    show ?thesis
    proof (cases "us = []")
      case True
      with 2 show ?thesis by simp
    next
      case False
      with 2 have "last pat = last us" by simp
      moreover from False have "last us \<in> set us" by simp
      moreover from 2 have "set us \<subseteq> set w" by (rule_tac set_mono_prefix)
      ultimately show ?thesis using assms by auto
    qed
  qed
next
  assume "prefix pat s"
  then show "prefix pat (s @ w)" by (simp add: prefix_append)
qed

lemma replace_ws_only:
  assumes "pat \<noteq> []" "\<not> isspace (last pat)" "\<forall>c\<in>set w. isspace c"
  shows "replace pat rep w = w"
  using assms(3)
proof (induction w)
  case Nil
  with assms show ?case by simp
next
  case (Cons c w)
  have "\<not> prefix pat (c # w)"
  proof
    assume "prefix pat (c # w)"
    then have "set pat \<subseteq> set (c # w)" by (rule set_mono_prefix)
    moreover from assms(1) have "last pat \<in> set pat" by simp
    ultimately show False using Cons.prems assms(2) by blast
  qed
  with Cons assms(1) show ?case by simp
qed

lemma drop_append_le: "n \<le> length xs \<Longrightarrow> drop n (xs @ w) = drop n xs @ w"
  by simp

lemma replace_ws_right:
  assumes "pat \<noteq> []" "\<not> isspace (last pat)" "\<forall>c\<in>set w. isspace c"
  shows "replace pat rep (s @ w) = replace pat rep s @ w"
  using assms
proof (induction pat rep s rule: replace.induct)
  case (1 pat rep)
  then show ?case by (simp add: replace_ws_only)
next
  case (2 pat rep c cs)
  have pw: "prefix pat ((c # cs) @ w) \<longleftrightarrow> prefix pat (c # cs)"
    using 2(4-6) by (rule prefix_ws_right)
  show ?case
  proof (cases "prefix pat (c # cs)")
    case True
    then have "length pat \<le> length (c # cs)" by (rule prefix_length_le)
    then have "drop (length pat) ((c # cs) @ w) = drop (length pat) (c # cs) @ w"
      by (rule drop_append_le)
    moreover have "replace pat rep (drop (length pat) (c # cs) @ w)
        = replace pat rep (drop (length pat) (c # cs)) @ w"
      using 2(2) [OF 2(4) True 2(4-6)] .
    ultimately show ?thesis using True pw 2(4)
      by (simp del: drop_append)
  next
    case False
    moreover have "replace pat rep (cs @ w) = replace pat rep cs @ w"
      using 2(3) [OF 2(4) False 2(4-6)] .
    ultimately show ?thesis using pw 2(4) by simp
  qed
qed

lemma replace_hd:
  assumes "pat \<noteq> []" "rep \<noteq> []" "\<not> isspace (hd rep)" "s \<noteq> []" "\<not> isspace (hd s)"
  shows "replace pat rep s \<noteq> [] \<and> \<not> isspace (hd (replace pat rep s))"
  using assms by (cases s) auto

lemma replace_last:
  assumes "pat \<noteq> []" "rep \<noteq> []" "\<not> isspace (last rep)" "s \<noteq> []" "\<not> isspace (last s)"
  shows "replace pat rep s \<noteq> [] \<and> \<not> isspace (last (replace pat rep s))"
  using assms
proof (induction pat rep s rule: replace.induct)
  case (1 pat rep)
  then show ?case by simp
next
  case (2 pat rep c cs)
  show ?case
  proof (cases "prefix pat (c # cs)")
    case True
    show ?thesis
    proof (cases "drop (length pat) (c # cs) = []")
      case e: True
      with True 2(4-6) show ?thesis by simp
    next
      case ne: False
      then have "last (drop (length pat) (c # cs)) = last (c # cs)"
        by simp
      with 2(2) [OF 2(4) True 2(4-6) ne] 2(8) True 2(4) show ?thesis
        by simp
    qed
  next
    case False
    show ?thesis
    proof (cases "cs = []")
      case True
      with False 2(4) 2(8) show ?thesis by simp
    next
      case ne: False
      with 2(3) [OF 2(4) False 2(4-6) ne] 2(8) False 2(4) show ?thesis
        by simp
    qed
  qed
qed

lemma strip_core:
  assumes "t = [] \<or> (\<not> isspace (hd t) \<and> \<not> isspace (last t))"
    and "\<forall>c\<in>set w1. isspace c" "\<forall>c\<in>set w2. isspace c"
  shows "strip (w1 @ t @ w2) = t"
proof (cases "t = []")
  case True
  from assms(2,3) have d: "dropWhile isspace (w1 @ w2) = []"
    by auto
  show ?thesis
    unfolding True strip_def lstrip_def rstrip_def append_Nil d by simp
next
  case False
  with assms(1) have h: "\<not> isspace (hd t)" and l: "\<not> isspace (last t)" by auto
  from False h have "dropWhile isspace (t @ w2) = t @ w2"
    by (cases t) auto
  with assms(2) have "lstrip (w1 @ t @ w2) = t @ w2"
    by (simp add: lstrip_def dropWhile_append)
  moreover from False l have "dropWhile isspace (rev t) = rev t"
    by (cases t rule: rev_cases) auto
  with assms(3) have "rstrip (t @ w2) = t"
    by (simp add: rstrip_def dropWhile_append)
  ultimately show ?thesis by (simp add: strip_def)
qed

lemma strip_decomp:
  "\<exists>w1 w2. s = w1 @ strip s @ w2 \<and> (\<forall>c\<in>set w1. isspace c) \<and> (\<forall>c\<in>set w2. isspace c)
     \<and> (strip s = [] \<or> (\<not> isspace (hd (strip s)) \<and> \<not> isspace (last (strip s))))"
proof -
  define w1 where "w1 = takeWhile isspace s"
  define u where "u = dropWhile isspace s"
  define w2 where "w2 = rev (takeWhile isspace (rev u))"
  have su: "s = w1 @ u" by (simp add: w1_def u_def)
  have "rev (dropWhile isspace (rev u)) @ rev (takeWhile isspace (rev u)) = u"
    by (metis rev_append rev_rev_ident takeWhile_dropWhile_id)
  then have uu: "u = strip s @ w2"
    by (simp add: strip_def rstrip_def lstrip_def w2_def u_def)
  have a1: "\<forall>c\<in>set w1. isspace c" by (auto simp: w1_def dest: set_takeWhileD)
  have a2: "\<forall>c\<in>set w2. isspace c" by (auto simp: w2_def dest: set_takeWhileD)
  have e: "strip s = [] \<or> (\<not> isspace (hd (strip s)) \<and> \<not> isspace (last (strip s)))"
  proof (cases "strip s = []")
    case True then show ?thesis by simp
  next
    case False
    have st: "strip s = rev (dropWhile isspace (rev u))"
      by (simp add: strip_def rstrip_def lstrip_def u_def)
    with False have ne: "dropWhile isspace (rev u) \<noteq> []" by simp
    then have "\<not> isspace (hd (dropWhile isspace (rev u)))" by (rule hd_dropWhile)
    with ne st have l: "\<not> isspace (last (strip s))" by (simp add: last_rev)
    from uu False have "hd u = hd (strip s)" by (metis hd_append2)
    moreover from uu False have "u \<noteq> []" by auto
    then have "\<not> isspace (hd u)" unfolding u_def by (rule hd_dropWhile)
    ultimately show ?thesis using l by simp
  qed
  from su uu a1 a2 e show ?thesis by blast
qed

lemma strip_replace_commute:
  assumes "pat \<noteq> []" "\<not> isspace (hd pat)" "\<not> isspace (last pat)"
    and "rep \<noteq> []" "\<not> isspace (hd rep)" "\<not> isspace (last rep)"
  shows "strip (replace pat rep s) = replace pat rep (strip s)"
proof -
  obtain w1 w2 where s: "s = w1 @ strip s @ w2"
    and w1: "\<forall>c\<in>set w1. isspace c" and w2: "\<forall>c\<in>set w2. isspace c"
    and e: "strip s = [] \<or> (\<not> isspace (hd (strip s)) \<and> \<not> isspace (last (strip s)))"
    using strip_decomp [of s] by blast
  let ?t = "strip s"
  have "replace pat rep (w1 @ ?t @ w2) = w1 @ replace pat rep ?t @ w2"
    using assms(1-3) w1 w2 by (simp add: replace_ws_left replace_ws_right)
  moreover have "replace pat rep ?t = [] \<or> (\<not> isspace (hd (replace pat rep ?t))
      \<and> \<not> isspace (last (replace pat rep ?t)))"
  proof (cases "?t = []")
    case True
    with assms(1) show ?thesis by simp
  next
    case False
    with e have "\<not> isspace (hd ?t)" and "\<not> isspace (last ?t)" by auto
    with False assms show ?thesis
      using replace_hd [of pat rep ?t] replace_last [of pat rep ?t] by blast
  qed
  ultimately have "strip (replace pat rep (w1 @ ?t @ w2)) = replace pat rep ?t"
    using w1 w2 by (simp add: strip_core)
  with s show ?thesis by simp
qed


lemma pat_facts:
  "lit ''Animate avatar to'' \<noteq> []"
  "\<not> isspace (hd (lit ''Animate avatar to''))"
  "\<not> isspace (last (lit ''Animate avatar to''))"
  "hd (lit ''Animate avatar to'') \<notin> set (tl (lit ''Animate avatar to''))"
  "length (lit ''Animate avatar to'') = 17"
  by (simp_all add: lit_def isspace_def)

lemma action_facts:
  "lit ''[ACTION]'' \<noteq> []"
  "\<not> isspace (hd (lit ''[ACTION]''))"
  "\<not> isspace (last (lit ''[ACTION]''))"
  "hd (lit ''[ACTION]'') \<notin> set (lit ''Animate avatar to'')"
  by (simp_all add: lit_def isspace_def)

lemma action_no_overlap:
  "sublist (lit ''Animate avatar to'') (lit ''[ACTION]'' @ X) \<Longrightarrow> sublist (lit ''Animate avatar to'') X"
  by (simp add: lit_def sublist_Cons_right)

lemma replace_occurrence:
  assumes "pat \<noteq> []" "hd pat \<notin> set (tl pat)"
  shows "replace pat rep (a @ pat @ b) = replace pat rep a @ rep @ replace pat rep b"
  using assms
proof (induction pat rep a rule: replace.induct)
  case (1 pat rep)
  then obtain x xs where p: "pat = x # xs" by (auto simp: neq_Nil_conv)
  have "replace pat rep (pat @ b) = rep @ replace pat rep (drop (length pat) (pat @ b))"
    unfolding p by simp
  with 1 show ?case by simp
next
  case (2 pat rep c cs)
  show ?case
  proof (cases "prefix pat (c # cs)")
    case True
    then have "length pat \<le> length (c # cs)" by (rule prefix_length_le)
    then have "drop (length pat) ((c # cs) @ pat @ b) = drop (length pat) (c # cs) @ pat @ b"
      by (rule drop_append_le)
    moreover have "replace pat rep (drop (length pat) (c # cs) @ pat @ b)
        = replace pat rep (drop (length pat) (c # cs)) @ rep @ replace pat rep b"
      using 2(2) [OF 2(4) True 2(4,5)] .
    moreover from True have "prefix pat ((c # cs) @ pat @ b)"
      by (simp add: prefix_append del: append_Cons)
    ultimately show ?thesis using True 2(4)
      by (simp del: drop_append)
  next
    case False
    have np: "\<not> prefix pat ((c # cs) @ pat @ b)"
    proof
      assume "prefix pat ((c # cs) @ pat @ b)"
      with False obtain us where u: "pat = (c # cs) @ us" "prefix us (pat @ b)"
        by (auto simp: prefix_append simp del: append_Cons)
      with False have ne: "us \<noteq> []" by auto
      with u(2) 2(4) have "hd us = hd pat"
        by (cases us; cases pat) auto
      moreover from u(1) ne have "hd us \<in> set (tl pat)" by simp
      ultimately show False using 2(5) by simp
    qed
    have "replace pat rep (cs @ pat @ b) = replace pat rep cs @ rep @ replace pat rep b"
      using 2(3) [OF 2(4) False 2(4,5)] .
    with False np 2(4) show ?thesis by simp
  qed
qed

lemma prefix_replaceD:
  assumes "pat \<noteq> []" "rep \<noteq> []" "hd rep \<notin> set u"
  shows "prefix u (replace pat rep t) \<Longrightarrow> prefix u t"
  using assms
proof (induction pat rep t arbitrary: u rule: replace.induct)
  case (1 pat rep)
  then show ?case by simp
next
  case (2 pat rep c cs)
  show ?case
  proof (cases "prefix pat (c # cs)")
    case True
    with 2(4,5) have "prefix u (rep @ replace pat rep (drop (length pat) (c # cs)))"
      by simp
    with 2(6,7) have "u = []"
      by (cases u; cases rep) auto
    then show ?thesis by simp
  next
    case False
    with 2(4,5) have pu: "prefix u (c # replace pat rep cs)" by simp
    show ?thesis
    proof (cases u)
      case Nil
      then show ?thesis by simp
    next
      case (Cons x u')
      with pu have "x = c" and "prefix u' (replace pat rep cs)" by auto
      moreover from Cons 2(7) have "hd rep \<notin> set u'" by simp
      ultimately have "prefix u' cs"
        using 2(3) [OF 2(5) False _ 2(5,6)] by blast
      with Cons \<open>x = c\<close> show ?thesis by simp
    qed
  qed
qed

lemma replace_no_occurrence:
  assumes "pat \<noteq> []" "rep \<noteq> []" "hd rep \<notin> set pat"
    and over: "\<And>X. sublist pat (rep @ X) \<Longrightarrow> sublist pat X"
  shows "\<not> sublist pat (replace pat rep s)"
proof (induction s rule: length_induct)
  case (1 s)
  show ?case
  proof (cases s)
    case Nil
    with assms(1) show ?thesis by simp
  next
    case (Cons c cs)
    show ?thesis
    proof (cases "prefix pat (c # cs)")
      case True
      from assms(1) Cons have "length (drop (length pat) s) < length s" by simp
      with 1 have "\<not> sublist pat (replace pat rep (drop (length pat) s))" by blast
      with over have "\<not> sublist pat (rep @ replace pat rep (drop (length pat) s))" by blast
      with True Cons assms(1) show ?thesis by simp
    next
      case False
      from Cons have "length cs < length s" by simp
      with 1 have ih: "\<not> sublist pat (replace pat rep cs)" by blast
      have r: "replace pat rep (c # cs) = c # replace pat rep cs"
        using False assms(1) by simp
      have "\<not> prefix pat (replace pat rep (c # cs))"
        using prefix_replaceD [OF assms(1,2,3)] False by blast
      with ih r Cons show ?thesis by (simp add: sublist_Cons_right)
    qed
  qed
qed

lemma sublist_strip: "sublist pat (strip s) \<Longrightarrow> sublist pat s"
proof -
  assume a: "sublist pat (strip s)"
  obtain w1 w2 where "s = w1 @ strip s @ w2"
    using strip_decomp [of s] by blast
  then have "sublist (strip s) s" by (metis sublist_appendI)
  with a show ?thesis by (rule sublist_order.order.trans)
qed

lemma sublist_split:
  assumes "x \<notin> set pat" "sublist pat (u @ x # v)"
  shows "sublist pat u \<or> sublist pat v"
proof -
  from assms(2) consider "sublist pat u" | "sublist pat (x # v)"
    | xs1 xs2 where "pat = xs1 @ xs2" "suffix xs1 u" "prefix xs2 (x # v)"
    by (auto simp: sublist_append)
  then show ?thesis
  proof cases
    case 1 then show ?thesis by simp
  next
    case 2
    then have "prefix pat (x # v) \<or> sublist pat v" by (simp add: sublist_Cons_right)
    with assms(1) show ?thesis by (cases pat) auto
  next
    case 3
    with assms(1) have "xs2 = []" by (cases xs2) auto
    with 3 have "suffix pat u" by simp
    then show ?thesis by auto
  qed
qed

lemma routed_service_range:
  "routed_service name \<in> set (map snd planetary_agents) \<or> routed_service name = lit ''CygNus''"
  by (auto simp: routed_service_def get_def split: option.splits dest!: map_of_SomeD intro: rev_image_eqI)

lemma routed_service_short: "length (routed_service name) < 17"
  using routed_service_range [of name]
  by (auto simp: planetary_agents_def lit_def)

lemma strip_around:
  assumes "m \<noteq> []" "\<not> isspace (hd m)" "\<not> isspace (last m)"
  shows "strip (x @ m @ y) = lstrip x @ m @ rstrip y"
proof -
  from assms(1,2) have "dropWhile isspace (m @ y) = m @ y" by (cases m) auto
  then have l: "lstrip (x @ m @ y) = lstrip x @ m @ y"
    by (simp add: lstrip_def dropWhile_append)
  from assms(1,3) have "dropWhile isspace (rev m @ z) = rev m @ z" for z
    by (cases m rule: rev_cases) auto
  then have "rstrip (z @ m @ y) = z @ m @ rstrip y" for z
    by (simp add: rstrip_def dropWhile_append)
  with l show ?thesis by (simp add: strip_def)
qed

section \<open>Parsing an instruction\<close>

lemma strip_ws_only: "\<forall>c\<in>set w. isspace c \<Longrightarrow> strip w = []"
  using strip_core [of "[]" w "[]"] by simp

lemma parse_instruction_result:
  "parse_instruction request p =
     (Dict [(lit ''parsed'',
             Str (lit ''['' @ routed_service (NLPRequest.agent request) @ lit ''] ''
                  @ strip (replace (lit ''Animate avatar to'') (lit ''[ACTION]'')
                            (NLPRequest.instruction request)))),
            (lit ''agent'', Str (NLPRequest.agent request)),
            (lit ''service'', Str (routed_service (NLPRequest.agent request)))], p)"
  by (simp add: parse_instruction_def Let_def)

lemma strip_replace_action:
  "strip (replace (lit ''Animate avatar to'') (lit ''[ACTION]'') s)
     = replace (lit ''Animate avatar to'') (lit ''[ACTION]'') (strip s)"
  by (rule strip_replace_commute) (rule pat_facts action_facts)+

lemma trimmed:
  "\<exists>w1 w2. s = w1 @ strip s @ w2 \<and> list_all isspace w1 \<and> list_all isspace w2
     \<and> (strip s = [] \<or> (\<not> isspace (hd (strip s)) \<and> \<not> isspace (last (strip s))))"
  using strip_decomp [of s] by (simp add: list_all_iff)

text \<open>
  C2. For every instruction and agent, the handler returns the agent, the resolved
  service and, as \<open>parsed\<close>, the string \<open>[service]\<close> followed by one space and the
  instruction trimmed of surrounding whitespace with every \<open>Animate avatar to\<close> replaced
  by \<open>[ACTION]\<close>. Trimmed means: the instruction is whitespace, then a core that neither
  begins nor ends with whitespace (or is empty), then whitespace, and only the core is
  kept. The source replaces first and trims afterwards; the two orders give the same
  string. For \<open>Animate avatar to dance\<close> and Mars the parsed string is
  \<open>[NotebookLM] [ACTION] dance\<close>, also when the instruction comes with a tab and an
  ideographic space before it and two spaces after it; for \<open>do X\<close> and the unregistered
  Pluto the service is CygNus and the parsed string is \<open>[CygNus] do X\<close>, also when the
  instruction comes with a space before it and a space and a newline after it.
\<close>

theorem parse_instruction_parsed:
  "parse_instruction request p =
     (Dict [(lit ''parsed'',
             Str (lit ''['' @ routed_service (NLPRequest.agent request) @ lit ''] ''
                  @ replace (lit ''Animate avatar to'') (lit ''[ACTION]'')
                      (strip (NLPRequest.instruction request)))),
            (lit ''agent'', Str (NLPRequest.agent request)),
            (lit ''service'', Str (routed_service (NLPRequest.agent request)))], p)
   \<and> replace (lit ''Animate avatar to'') (lit ''[ACTION]'') (strip (NLPRequest.instruction request))
       = strip (replace (lit ''Animate avatar to'') (lit ''[ACTION]'')
                 (NLPRequest.instruction request))
   \<and> (\<exists>w1 core w2.
         NLPRequest.instruction request = w1 @ core @ w2
         \<and> list_all isspace w1 \<and> list_all isspace w2
         \<and> (core = [] \<or> (\<not> isspace (hd core) \<and> \<not> isspace (last core)))
         \<and> fst (parse_instruction request p) =
             Dict [(lit ''parsed'',
                    Str (lit ''['' @ routed_service (NLPRequest.agent request) @ lit ''] ''
                         @ replace (lit ''Animate avatar to'') (lit ''[ACTION]'') core)),
                   (lit ''agent'', Str (NLPRequest.agent request)),
                   (lit ''service'', Str (routed_service (NLPRequest.agent request)))])
   \<and> parse_instruction \<lparr>instruction = lit ''Animate avatar to dance'', agent = lit ''Mars''\<rparr> p =
       (Dict [(lit ''parsed'', Str (lit ''[NotebookLM] [ACTION] dance'')),
              (lit ''agent'', Str (lit ''Mars'')), (lit ''service'', Str (lit ''NotebookLM''))], p)
   \<and> parse_instruction \<lparr>instruction = lit ''do X'', agent = lit ''Pluto''\<rparr> p =
       (Dict [(lit ''parsed'', Str (lit ''[CygNus] do X'')),
              (lit ''agent'', Str (lit ''Pluto'')), (lit ''service'', Str (lit ''CygNus''))], p)
   \<and> parse_instruction \<lparr>instruction = lit '' do X '' @ [10], agent = lit ''Pluto''\<rparr> p =
       (Dict [(lit ''parsed'', Str (lit ''[CygNus] do X'')),
              (lit ''agent'', Str (lit ''Pluto'')), (lit ''service'', Str (lit ''CygNus''))], p)
   \<and> parse_instruction
        \<lparr>instruction = [9, 12288] @ lit ''Animate avatar to dance  '', agent = lit ''Mars''\<rparr> p =
       (Dict [(lit ''parsed'', Str (lit ''[NotebookLM] [ACTION] dance'')),
              (lit ''agent'', Str (lit ''Mars'')), (lit ''service'', Str (lit ''NotebookLM''))], p)"
proof -
  have g: "parse_instruction request p =
     (Dict [(lit ''parsed'',
             Str (lit ''['' @ routed_service (NLPRequest.agent request) @ lit ''] ''
                  @ replace (lit ''Animate avatar to'') (lit ''[ACTION]'')
                      (strip (NLPRequest.instruction request)))),
            (lit ''agent'', Str (NLPRequest.agent request)),
            (lit ''service'', Str (routed_service (NLPRequest.agent request)))], p)"
    by (simp only: parse_instruction_result strip_replace_action)
  obtain w1 w2 where
    "NLPRequest.instruction request = w1 @ strip (NLPRequest.instruction request) @ w2"
    "list_all isspace w1" "list_all isspace w2"
    "strip (NLPRequest.instruction request) = []
       \<or> (\<not> isspace (hd (strip (NLPRequest.instruction request)))
           \<and> \<not> isspace (last (strip (NLPRequest.instruction request))))"
    using trimmed [of "NLPRequest.instruction request"] by blast
  with g have t: "\<exists>w1 core w2.
         NLPRequest.instruction request = w1 @ core @ w2
         \<and> list_all isspace w1 \<and> list_all isspace w2
         \<and> (core = [] \<or> (\<not> isspace (hd core) \<and> \<not> isspace (last core)))
         \<and> fst (parse_instruction request p) =
             Dict [(lit ''parsed'',
                    Str (lit ''['' @ routed_service (NLPRequest.agent request) @ lit ''] ''
                         @ replace (lit ''Animate avatar to'') (lit ''[ACTION]'') core)),
                   (lit ''agent'', Str (NLPRequest.agent request)),
                   (lit ''service'', Str (routed_service (NLPRequest.agent request)))]"
    by (metis fst_conv)
  have e1: "parse_instruction \<lparr>instruction = lit ''Animate avatar to dance'', agent = lit ''Mars''\<rparr> p =
       (Dict [(lit ''parsed'', Str (lit ''[NotebookLM] [ACTION] dance'')),
              (lit ''agent'', Str (lit ''Mars'')), (lit ''service'', Str (lit ''NotebookLM''))], p)"
    by (simp add: parse_instruction_def routed_service_def get_def planetary_agents_def lit_def
        strip_def lstrip_def rstrip_def isspace_def)
  have e2: "parse_instruction \<lparr>instruction = lit ''do X'', agent = lit ''Pluto''\<rparr> p =
       (Dict [(lit ''parsed'', Str (lit ''[CygNus] do X'')),
              (lit ''agent'', Str (lit ''Pluto'')), (lit ''service'', Str (lit ''CygNus''))], p)"
    by (simp add: parse_instruction_def routed_service_def get_def planetary_agents_def lit_def
        strip_def lstrip_def rstrip_def isspace_def)
  have e3: "parse_instruction \<lparr>instruction = lit '' do X '' @ [10], agent = lit ''Pluto''\<rparr> p =
       (Dict [(lit ''parsed'', Str (lit ''[CygNus] do X'')),
              (lit ''agent'', Str (lit ''Pluto'')), (lit ''service'', Str (lit ''CygNus''))], p)"
    by (simp add: parse_instruction_def routed_service_def get_def planetary_agents_def lit_def
        strip_def lstrip_def rstrip_def isspace_def)
  have e4: "parse_instruction
        \<lparr>instruction = [9, 12288] @ lit ''Animate avatar to dance  '', agent = lit ''Mars''\<rparr> p =
       (Dict [(lit ''parsed'', Str (lit ''[NotebookLM] [ACTION] dance'')),
              (lit ''agent'', Str (lit ''Mars'')), (lit ''service'', Str (lit ''NotebookLM''))], p)"
    by (simp add: parse_instruction_def routed_service_def get_def planetary_agents_def lit_def
        strip_def lstrip_def rstrip_def isspace_def)
  from g t e1 e2 e3 e4 strip_replace_action [symmetric] show ?thesis by blast
qed

text \<open>
  C10. When the instruction is empty or consists of whitespace only, the parsed string is
  \<open>[service]\<close> followed by a single space: the space of the prefix is emitted although
  nothing follows it.
\<close>

theorem parse_instruction_blank:
  "(\<forall>c\<in>set (NLPRequest.instruction request). isspace c) \<longrightarrow>
     parse_instruction request p =
       (Dict [(lit ''parsed'', Str (lit ''['' @ routed_service (NLPRequest.agent request) @ lit ''] '')),
              (lit ''agent'', Str (NLPRequest.agent request)),
              (lit ''service'', Str (routed_service (NLPRequest.agent request)))], p)"
proof
  assume ws: "\<forall>c\<in>set (NLPRequest.instruction request). isspace c"
  then have "replace (lit ''Animate avatar to'') (lit ''[ACTION]'') (NLPRequest.instruction request)
      = NLPRequest.instruction request"
    using pat_facts(1,3) by (simp add: replace_ws_only)
  moreover from ws have "strip (NLPRequest.instruction request) = []"
    by (rule strip_ws_only)
  ultimately show "parse_instruction request p =
       (Dict [(lit ''parsed'', Str (lit ''['' @ routed_service (NLPRequest.agent request) @ lit ''] '')),
              (lit ''agent'', Str (NLPRequest.agent request)),
              (lit ''service'', Str (routed_service (NLPRequest.agent request)))], p)"
    by (simp add: parse_instruction_result)
qed

theorem parse_instruction_blank_witness:
  "isspace 32 \<and> isspace 9 \<and> isspace 10 \<and> isspace 12288
   \<and> parse_instruction \<lparr>instruction = [32, 9, 10, 12288], agent = lit ''Saturn''\<rparr> startup =
       (Dict [(lit ''parsed'', Str (lit ''[NLP2CODE] '')),
              (lit ''agent'', Str (lit ''Saturn'')),
              (lit ''service'', Str (lit ''NLP2CODE''))], startup)
   \<and> parse_instruction \<lparr>instruction = [], agent = lit ''Pluto''\<rparr> startup =
       (Dict [(lit ''parsed'', Str (lit ''[CygNus] '')),
              (lit ''agent'', Str (lit ''Pluto'')),
              (lit ''service'', Str (lit ''CygNus''))], startup)"
proof -
  have ws: "\<forall>c\<in>set (NLPRequest.instruction \<lparr>instruction = [32, 9, 10, 12288], agent = lit ''Saturn''\<rparr>). isspace c"
    by (simp add: isspace_def)
  have s: "routed_service (lit ''Saturn'') = lit ''NLP2CODE''"
    by (simp add: routed_service_def get_def planetary_agents_def lit_def)
  have c: "routed_service (lit ''Pluto'') = lit ''CygNus''"
    by (simp add: routed_service_def get_def planetary_agents_def lit_def)
  have l: "lit ''['' @ lit ''NLP2CODE'' @ lit ''] '' = lit ''[NLP2CODE] ''"
    "lit ''['' @ lit ''CygNus'' @ lit ''] '' = lit ''[CygNus] ''"
    by (simp_all add: lit_def)
  have sp: "isspace 32" "isspace 9" "isspace 10" "isspace 12288"
    by (simp_all add: isspace_def)
  from ws sp s c l
    parse_instruction_blank [of "\<lparr>instruction = [32, 9, 10, 12288], agent = lit ''Saturn''\<rparr>" startup]
    parse_instruction_blank [of "\<lparr>instruction = [], agent = lit ''Pluto''\<rparr>" startup]
  show ?thesis by simp
qed

lemma replace_two_occurrences:
  "replace (lit ''Animate avatar to'') (lit ''[ACTION]'')
       (a @ lit ''Animate avatar to'' @ b @ lit ''Animate avatar to'' @ c)
     = replace (lit ''Animate avatar to'') (lit ''[ACTION]'') a @ lit ''[ACTION]''
       @ replace (lit ''Animate avatar to'') (lit ''[ACTION]'') b @ lit ''[ACTION]''
       @ replace (lit ''Animate avatar to'') (lit ''[ACTION]'') c"
  using replace_occurrence [OF pat_facts(1,4)] by simp

lemma strip_two_markers:
  "strip (x @ lit ''[ACTION]'' @ y @ lit ''[ACTION]'' @ z)
     = lstrip x @ lit ''[ACTION]'' @ y @ lit ''[ACTION]'' @ rstrip z"
proof -
  let ?m = "lit ''[ACTION]'' @ y @ lit ''[ACTION]''"
  have "?m \<noteq> []" "\<not> isspace (hd ?m)" "\<not> isspace (last ?m)"
    using action_facts(1-3) by simp_all
  then have "strip (x @ ?m @ z) = lstrip x @ ?m @ rstrip z"
    by (rule strip_around)
  then show ?thesis by simp
qed

lemma parsed_no_occurrence:
  "\<not> sublist (lit ''Animate avatar to'')
       (lit ''['' @ routed_service name @ lit ''] ''
        @ strip (replace (lit ''Animate avatar to'') (lit ''[ACTION]'') s))"
proof
  let ?P = "lit ''Animate avatar to''"
  let ?R = "strip (replace ?P (lit ''[ACTION]'') s)"
  assume "sublist ?P (lit ''['' @ routed_service name @ lit ''] '' @ ?R)"
  then have a: "sublist ?P ([] @ 91 # (routed_service name @ 93 # (32 # ?R)))"
    by (simp add: lit_def)
  have n: "91 \<notin> set ?P" "93 \<notin> set ?P" "32 \<noteq> hd ?P" "?P \<noteq> []"
    by (simp_all add: lit_def)
  from sublist_split [OF n(1) a] n(4)
  have "sublist ?P (routed_service name @ 93 # (32 # ?R))" by simp
  from sublist_split [OF n(2) this]
  have "sublist ?P (routed_service name) \<or> sublist ?P (32 # ?R)" .
  moreover have "\<not> sublist ?P (routed_service name)"
    using routed_service_short [of name] pat_facts(5) sublist_length_le [of ?P "routed_service name"]
    by auto
  ultimately have "sublist ?P (32 # ?R)" by simp
  with n(3,4) have "sublist ?P ?R"
    by (cases ?P) (auto simp: sublist_Cons_right)
  then have "sublist ?P (replace ?P (lit ''[ACTION]'') s)"
    by (rule sublist_strip)
  moreover have "\<not> sublist ?P (replace ?P (lit ''[ACTION]'') s)"
    using pat_facts(1) action_facts(1,4) action_no_overlap
    by (rule replace_no_occurrence)
  ultimately show False by simp
qed

text \<open>
  C4. The substitution replaces every occurrence of \<open>Animate avatar to\<close>, not only the
  first. An instruction with two occurrences has both of them as \<open>[ACTION]\<close> in the
  parsed string (the three pieces around them are treated in the same way, so this covers
  any number of occurrences), and the parsed string of any instruction contains no
  occurrence of \<open>Animate avatar to\<close> any more.
\<close>

theorem parse_instruction_replaces_all:
  "fst (parse_instruction
         \<lparr>instruction = a @ lit ''Animate avatar to'' @ b @ lit ''Animate avatar to'' @ c,
          agent = name\<rparr> p) =
     Dict [(lit ''parsed'',
            Str (lit ''['' @ routed_service name @ lit ''] ''
                 @ lstrip (replace (lit ''Animate avatar to'') (lit ''[ACTION]'') a)
                 @ lit ''[ACTION]''
                 @ replace (lit ''Animate avatar to'') (lit ''[ACTION]'') b
                 @ lit ''[ACTION]''
                 @ rstrip (replace (lit ''Animate avatar to'') (lit ''[ACTION]'') c))),
           (lit ''agent'', Str name), (lit ''service'', Str (routed_service name))]
   \<and> (\<exists>parsed. field (lit ''parsed'') (fst (parse_instruction request p)) = Some (Str parsed)
         \<and> \<not> sublist (lit ''Animate avatar to'') parsed)
   \<and> fst (parse_instruction
         \<lparr>instruction = lit ''Animate avatar to jump, Animate avatar to wave'',
          agent = lit ''Jupiter''\<rparr> p) =
       Dict [(lit ''parsed'', Str (lit ''[CoManDeck] [ACTION] jump, [ACTION] wave'')),
             (lit ''agent'', Str (lit ''Jupiter'')), (lit ''service'', Str (lit ''CoManDeck''))]"
proof -
  have one: "fst (parse_instruction
         \<lparr>instruction = a @ lit ''Animate avatar to'' @ b @ lit ''Animate avatar to'' @ c,
          agent = name\<rparr> p) =
     Dict [(lit ''parsed'',
            Str (lit ''['' @ routed_service name @ lit ''] ''
                 @ lstrip (replace (lit ''Animate avatar to'') (lit ''[ACTION]'') a)
                 @ lit ''[ACTION]''
                 @ replace (lit ''Animate avatar to'') (lit ''[ACTION]'') b
                 @ lit ''[ACTION]''
                 @ rstrip (replace (lit ''Animate avatar to'') (lit ''[ACTION]'') c))),
           (lit ''agent'', Str name), (lit ''service'', Str (routed_service name))]"
    by (simp only: parse_instruction_result replace_two_occurrences strip_two_markers
        fst_conv NLPRequest.simps)
  have "field (lit ''parsed'') (fst (parse_instruction request p)) =
      Some (Str (lit ''['' @ routed_service (NLPRequest.agent request) @ lit ''] ''
        @ strip (replace (lit ''Animate avatar to'') (lit ''[ACTION]'')
                  (NLPRequest.instruction request))))"
    by (simp add: parse_instruction_result field_def)
  with parsed_no_occurrence have two:
    "\<exists>parsed. field (lit ''parsed'') (fst (parse_instruction request p)) = Some (Str parsed)
         \<and> \<not> sublist (lit ''Animate avatar to'') parsed"
    by blast
  have three: "fst (parse_instruction
         \<lparr>instruction = lit ''Animate avatar to jump, Animate avatar to wave'',
          agent = lit ''Jupiter''\<rparr> p) =
       Dict [(lit ''parsed'', Str (lit ''[CoManDeck] [ACTION] jump, [ACTION] wave'')),
             (lit ''agent'', Str (lit ''Jupiter'')), (lit ''service'', Str (lit ''CoManDeck''))]"
    by (simp add: parse_instruction_def routed_service_def get_def planetary_agents_def lit_def
        strip_def lstrip_def rstrip_def isspace_def)
  from one two three show ?thesis by blast
qed

section \<open>Speech synthesis\<close>

lemma utf8_routed_service: "utf8 (routed_service name)"
  using routed_service_range [of name]
  by (auto simp: planetary_agents_def lit_def utf8_def utf8_char_def surrogate_def)

lemma renders_tts_content:
  "renders (Dict [(lit ''status'', Str (lit ''TTS generated'')), (lit ''agent'', Str name),
                  (lit ''service'', Str (routed_service name))]) = utf8 name"
  "renders (Dict [(lit ''error'', Str (lit ''TTS failed'')), (lit ''agent'', Str name),
                  (lit ''service'', Str (routed_service name))]) = utf8 name"
  using utf8_routed_service [of name]
  by (simp_all add: lit_def utf8_def utf8_char_def surrogate_def)

lemma generate_tts_posted:
  "snd (generate_tts outcome request p) =
     p\<lparr>posted := posted p @
        [\<lparr>url = lit ''https://api.elevenlabs.io/v1/text-to-speech/'' @ ELEVENLABS_VOICE_ID,
          headers = [(lit ''xi-api-key'', ELEVENLABS_API_KEY),
                     (lit ''Content-Type'', lit ''application/json'')],
          json = Dict [(lit ''text'', Str (TTSRequest.text request)),
                       (lit ''voice_settings'',
                          Dict [(lit ''stability'', Float 0.5),
                                (lit ''similarity_boost'', Float 0.75)])]\<rparr>]\<rparr>"
  by (simp add: generate_tts_def Let_def requests_post_def split: post_outcome.split)

lemma generate_tts_result:
  "fst (generate_tts (Response code) request p) =
     (if code = 200
      then JSONResponse_init (Dict [(lit ''status'', Str (lit ''TTS generated'')),
                                    (lit ''agent'', Str (TTSRequest.agent request)),
                                    (lit ''service'', Str (routed_service (TTSRequest.agent request)))]) 200
      else JSONResponse_init (Dict [(lit ''error'', Str (lit ''TTS failed'')),
                                    (lit ''agent'', Str (TTSRequest.agent request)),
                                    (lit ''service'', Str (routed_service (TTSRequest.agent request)))]) 500)"
  "fst (generate_tts (Raise e) request p) = Inl e"
  by (simp_all add: generate_tts_def Let_def)

text \<open>
  C3. When \<^verbatim>\<open>requests.post\<close> returns a response and the agent can be encoded in UTF-8,
  the handler returns status 200 with the success payload holding the agent and the
  resolved service if the status code of the response is 200, and status 500 with the
  error payload holding the agent and the resolved service for any other status code;
  these are then the only two outcomes. When the response is there but the agent holds a
  lone surrogate, building the \<^verbatim>\<open>JSONResponse\<close> raises \<^verbatim>\<open>UnicodeEncodeError\<close>; when the call
  itself raises (a transport error), that exception leaves the handler. In both cases the
  handler returns no payload.
\<close>

theorem generate_tts_outcomes:
  "(utf8 (TTSRequest.agent request) \<longrightarrow>
      fst (generate_tts (Response 200) request p) =
        Inr \<lparr>content = Dict [(lit ''status'', Str (lit ''TTS generated'')),
                             (lit ''agent'', Str (TTSRequest.agent request)),
                             (lit ''service'', Str (routed_service (TTSRequest.agent request)))],
             status_code = 200\<rparr>
      \<and> (code \<noteq> 200 \<longrightarrow>
          fst (generate_tts (Response code) request p) =
            Inr \<lparr>content = Dict [(lit ''error'', Str (lit ''TTS failed'')),
                                 (lit ''agent'', Str (TTSRequest.agent request)),
                                 (lit ''service'', Str (routed_service (TTSRequest.agent request)))],
                 status_code = 500\<rparr>))
   \<and> (\<not> utf8 (TTSRequest.agent request) \<longrightarrow>
        fst (generate_tts (Response code) request p) = Inl UnicodeEncodeError)
   \<and> fst (generate_tts (Raise e) request p) = Inl e"
  by (simp add: generate_tts_result JSONResponse_init_def renders_tts_content
      del: renders.simps)

theorem generate_tts_outcomes_witness:
  "utf8 (lit ''Neptune'') \<and> (404 :: int) \<noteq> 200
   \<and> fst (generate_tts (Response 200) \<lparr>text = lit ''hello'', agent = lit ''Neptune''\<rparr> startup) =
       Inr \<lparr>content = Dict [(lit ''status'', Str (lit ''TTS generated'')),
                            (lit ''agent'', Str (lit ''Neptune'')),
                            (lit ''service'', Str (lit ''SLAMAR''))],
            status_code = 200\<rparr>
   \<and> fst (generate_tts (Response 404) \<lparr>text = lit ''hello'', agent = lit ''Neptune''\<rparr> startup) =
       Inr \<lparr>content = Dict [(lit ''error'', Str (lit ''TTS failed'')),
                            (lit ''agent'', Str (lit ''Neptune'')),
                            (lit ''service'', Str (lit ''SLAMAR''))],
            status_code = 500\<rparr>
   \<and> \<not> utf8 [55296]
   \<and> fst (generate_tts (Response 200) \<lparr>text = lit ''hello'', agent = [55296]\<rparr> startup)
       = Inl UnicodeEncodeError"
proof -
  have r: "routed_service (lit ''Neptune'') = lit ''SLAMAR''"
    by (simp add: routed_service_def get_def planetary_agents_def lit_def)
  have u: "utf8 (lit ''Neptune'')" "\<not> utf8 [55296]"
    by (simp_all add: utf8_def utf8_char_def surrogate_def lit_def)
  from r u
    generate_tts_outcomes [where request = "\<lparr>text = lit ''hello'', agent = lit ''Neptune''\<rparr>"
      and p = startup and code = 404]
    generate_tts_outcomes [where request = "\<lparr>text = lit ''hello'', agent = [55296]\<rparr>"
      and p = startup and code = 200]
  show ?thesis by simp
qed

text \<open>
  A transport error is therefore not surfaced as the error payload with status 500: for
  the words \<open>hello\<close> and the agent Mars the handler ends with the exception.
\<close>

theorem generate_tts_transport_error:
  "fst (generate_tts (Raise RequestException) \<lparr>text = lit ''hello'', agent = lit ''Mars''\<rparr> startup)
     = Inl RequestException
   \<and> fst (generate_tts (Raise RequestException) \<lparr>text = lit ''hello'', agent = lit ''Mars''\<rparr> startup)
     \<noteq> Inr \<lparr>content = Dict [(lit ''error'', Str (lit ''TTS failed'')),
                            (lit ''agent'', Str (lit ''Mars'')),
                            (lit ''service'', Str (lit ''NotebookLM''))],
            status_code = 500\<rparr>"
  by (simp add: generate_tts_def Let_def)

section \<open>Listing the agents and receiving webhooks\<close>

text \<open>
  C5. \<^verbatim>\<open>list_agents\<close> takes no request and leaves the state of the process as it is. Under
  the key \<open>planetary_agents\<close> it returns the mapping with exactly the six configured pairs
  Mercury/Push2Repo, Mars/NotebookLM, Saturn/NLP2CODE, Jupiter/CoManDeck, Neptune/SLAMAR
  and Sedna/HeylloGen, with six distinct keys and nothing else. The result is the same in
  every state of the process, hence for every call.
\<close>

theorem list_agents_exact:
  "list_agents p =
     (Dict [(lit ''planetary_agents'',
             Dict [(lit ''Mercury'', Str (lit ''Push2Repo'')),
                   (lit ''Mars'', Str (lit ''NotebookLM'')),
                   (lit ''Saturn'', Str (lit ''NLP2CODE'')),
                   (lit ''Jupiter'', Str (lit ''CoManDeck'')),
                   (lit ''Neptune'', Str (lit ''SLAMAR'')),
                   (lit ''Sedna'', Str (lit ''HeylloGen''))])], p)
   \<and> fst (list_agents p) = fst (list_agents q)
   \<and> distinct (map fst planetary_agents) \<and> length planetary_agents = 6"
  by (simp add: list_agents_def planetary_agents_def lit_def)








section \<open>The request sent to the text-to-speech provider\<close>

text \<open>
  C7. Every call of the handler, whatever the provider answers, makes exactly one outbound
  request: to the endpoint built from the configured voice identifier, with the configured
  API key in the header \<open>xi-api-key\<close>, and with a JSON body that carries the text of the
  request and the voice settings stability 0.5 and similarity boost 0.75.
\<close>

theorem generate_tts_request:
  "posted (snd (generate_tts outcome request p)) = posted p @
     [\<lparr>url = lit ''https://api.elevenlabs.io/v1/text-to-speech/'' @ ELEVENLABS_VOICE_ID,
       headers = [(lit ''xi-api-key'', ELEVENLABS_API_KEY),
                  (lit ''Content-Type'', lit ''application/json'')],
       json = Dict [(lit ''text'', Str (TTSRequest.text request)),
                    (lit ''voice_settings'',
                       Dict [(lit ''stability'', Float (1 / 2)),
                             (lit ''similarity_boost'', Float (3 / 4))])]\<rparr>]
   \<and> stdout (snd (generate_tts outcome request p)) = stdout p"
  by (simp add: generate_tts_posted)

text \<open>
  C9. The outbound request does not depend on the agent: two calls with the same text and
  different agents, in the same state and whatever the provider answers to either, send
  the same URL, headers and JSON body, and leave the process in the same state. Neither
  the agent nor the resolved service reaches the provider.
\<close>

theorem generate_tts_request_agent_independent:
  "posted (snd (generate_tts outcome1 \<lparr>text = t, agent = name1\<rparr> p))
     = posted (snd (generate_tts outcome2 \<lparr>text = t, agent = name2\<rparr> p))
   \<and> snd (generate_tts outcome1 \<lparr>text = t, agent = name1\<rparr> p)
     = snd (generate_tts outcome2 \<lparr>text = t, agent = name2\<rparr> p)"
  by (simp add: generate_tts_posted)

section \<open>Agent and service in the responses\<close>




end
